theory Spec2Isabelle
  imports Complex_Main "HOL-Library.Word" "HOL-Library.Multiset"
begin

section \<open>The state model\<close>

text \<open>
  The repository holds two versions of one program, \<^verbatim>\<open>metropolis.go\<close> and an unnamed later
  revision (\<^verbatim>\<open>part_000\<close>). They differ in three constants (the number searched for, the
  width of a mutation, the heat table), in the channels (two for each chain, later one
  used in both directions), in how a chain hands back a reverted state and in a line of
  scores the later hub prints each round. None of this changes a value that is computed.
  The constants are gathered in a record, so every function below is the function of
  both files.

  Go's \<^verbatim>\<open>int32\<close> is a 32-bit word: \<open>+\<close>, \<open>-\<close> and \<open>*\<close> wrap around, and the comparisons
  of the source are the signed ones (\<open><s\<close>, \<open>\<le>s\<close>, read through \<open>sint\<close>).
\<close>

type_synonym int32 = "32 word"

text \<open>\<^verbatim>\<open>type State struct { Score int32; World int32 }\<close>\<close>

record State =
  Score :: int32
  World :: int32

text \<open>
  \<open>target\<close>: the number \<^verbatim>\<open>SetScore\<close> measures the distance to (500, later 50000).
  \<open>spread\<close>: the argument of \<^verbatim>\<open>rand.Int31n\<close> in \<^verbatim>\<open>Mutate\<close> (100000, later 100).
  \<open>shift\<close>: what \<^verbatim>\<open>Mutate\<close> subtracts from the draw (50000, later 50).
  \<open>Heat\<close>: the table \<^verbatim>\<open>var Heat = [...]float64{...}\<close>. Its entries are only ever compared
  with a draw of \<^verbatim>\<open>rand.Float64()\<close>; a comparison of two floats is the comparison of the
  rationals they stand for, so the entries are modelled as reals. A decimal literal of
  the source denotes the \<^verbatim>\<open>float64\<close> nearest to it, and the tables below hold that
  value: 0.01 is \<open>5764607523034235 / 2^59\<close>, 0.001 is \<open>1152921504606847 / 2^60\<close>,
  0.0005 is \<open>1152921504606847 / 2^61\<close>, 0.0001 is \<open>7378697629483821 / 2^66\<close>,
  0.00001 is \<open>5902958103587057 / 2^69\<close>, 0.005 is \<open>5764607523034235 / 2^60\<close> and
  0.05 is \<open>3602879701896397 / 2^56\<close>; 0 and 0.5 are exact.
\<close>

record config =
  target :: int32
  spread :: int32
  shift :: int32
  Heat :: "real list"

definition metropolis_go :: config where
  "metropolis_go =
     \<lparr>target = 500, spread = 100000, shift = 50000,
      Heat = [0, 5902958103587057 / 2 ^ 69, 7378697629483821 / 2 ^ 66,
              1152921504606847 / 2 ^ 61, 1152921504606847 / 2 ^ 60,
              5764607523034235 / 2 ^ 59]\<rparr>"

definition part_000 :: config where
  "part_000 =
     \<lparr>target = 50000, spread = 100, shift = 50,
      Heat = [0, 5902958103587057 / 2 ^ 69, 1152921504606847 / 2 ^ 61,
              5764607523034235 / 2 ^ 60, 3602879701896397 / 2 ^ 56, 1 / 2]\<rparr>"

text \<open>\<^verbatim>\<open>const THREADS = 6\<close>\<close>

definition THREADS :: nat where
  "THREADS = 6"

text \<open>
  \<^verbatim>\<open>
  func (s *State) SetScore() {
      s.Score = 500 - s.World
      if s.Score < 0 {
          s.Score *= -1
      }
  }
  \<close>
\<close>

definition SetScore :: "config \<Rightarrow> State \<Rightarrow> State" where
  "SetScore cfg s =
     (let s = s\<lparr>Score := target cfg - World s\<rparr>
      in if Score s <s 0 then s\<lparr>Score := Score s * (- 1)\<rparr> else s)"

text \<open>
  \<^verbatim>\<open>func (s *State) Mutate() { s.World += rand.Int31n(100000) - 50000 }\<close>

  The draw of \<^verbatim>\<open>rand.Int31n\<close> is the argument \<open>k\<close>; the generator returns
  \<open>0 \<le> k < spread\<close>.
\<close>

definition Mutate :: "config \<Rightarrow> int32 \<Rightarrow> State \<Rightarrow> State" where
  "Mutate cfg k s = s\<lparr>World := World s + (k - shift cfg)\<rparr>"

text \<open>
  \<^verbatim>\<open>func NewState() *State { var s *State = new(State); s.SetScore(); return s }\<close>

  \<^verbatim>\<open>new(State)\<close> is the zero value of the struct.
\<close>

definition NewState :: "config \<Rightarrow> State" where
  "NewState cfg = SetScore cfg \<lparr>Score = 0, World = 0\<rparr>"

section \<open>The chain\<close>

text \<open>
  One iteration of the loop of \<^verbatim>\<open>chain(index)\<close>, from the receive to the send:
  \<^verbatim>\<open>
  old_state := *my_state
  my_state.Mutate()
  my_state.SetScore()
  if my_state.Score > old_state.Score && rand.Float64() > Heat[index] {
      *my_state = old_state          // later revision: my_state = &old_state
  }
  ReportChan[index] <- my_state
  \<close>
  The argument is the state received, the result the state sent. \<open>rnd\<close> holds the two
  draws of the iteration: that of \<^verbatim>\<open>rand.Int31n\<close> and that of \<^verbatim>\<open>rand.Float64()\<close>, which
  lies in the half-open interval from 0 to 1. \<^verbatim>\<open>&&\<close> evaluates its right side only when the
  left side holds, so \<^verbatim>\<open>Heat[index]\<close> is read only for a worse candidate; an index outside
  the table panics there (\<open>None\<close>).

  Both revisions send a state with the fields of \<open>old_state\<close> when they revert: the first
  copies them back into the object it was given, the second sends the address of the
  copy. Every chain starts from an object of its own and the hub only permutes the
  pointers, so no two chains ever hold the same object and a state can be passed by
  value.
\<close>

definition chain :: "config \<Rightarrow> nat \<Rightarrow> int32 \<times> real \<Rightarrow> State \<Rightarrow> State option" where
  "chain cfg index rnd my_state =
     (let old_state = my_state;
          my_state = SetScore cfg (Mutate cfg (fst rnd) my_state)
      in if Score old_state <s Score my_state
         then (if index < length (Heat cfg)
               then (if Heat cfg ! index < snd rnd then Some old_state else Some my_state)
               else None)
         else Some my_state)"

section \<open>The hub\<close>

text \<open>
  The collection loop of \<^verbatim>\<open>hub\<close>:
  \<^verbatim>\<open>
  for n := 0; n < THREADS; n++ {
      state_pointers[n] = <- ReportChan[n]
      if state_pointers[n].Score == 0 {
          fmt.Printf("Success in thread %d: ", n)
          state_pointers[n].Dump()
          return
      }
  }
  \<close>
  The last argument lists the states the chains \<open>n\<close>, \<open>n + 1\<close>, ... are waiting to hand
  over, in slot order; a receive takes the head. Slot \<open>n\<close> of the array is assigned before
  it is read, so what the array held before (nil in the first round) never matters: the
  second argument is the part of the array filled so far, slots \<open>0\<close> to \<open>n - 1\<close>.
  \<open>Success n s rest\<close>: the hub printed thread \<open>n\<close> and state \<open>s\<close> and returned; \<open>rest\<close>
  are the reports it never received.
\<close>

datatype collected = Success nat State "State list" | Reports "State list"

fun collect :: "nat \<Rightarrow> State list \<Rightarrow> State list \<Rightarrow> collected" where
  "collect n state_pointers [] = Reports state_pointers"
| "collect n state_pointers (r # waiting) =
     (if Score r = 0 then Success n r waiting
      else collect (Suc n) (state_pointers @ [r]) waiting)"

text \<open>
  The exchange loop of \<^verbatim>\<open>hub\<close>, the array having \<^verbatim>\<open>THREADS\<close> slots:
  \<^verbatim>\<open>
  for n := 0; n < THREADS - 1; n++ {
      if state_pointers[n].Score > state_pointers[n + 1].Score {
          state_pointers[n], state_pointers[n + 1] = state_pointers[n + 1], state_pointers[n]
      }
  }
  \<close>
\<close>

function exchange_loop :: "nat \<Rightarrow> State list \<Rightarrow> State list" where
  "exchange_loop n state_pointers =
     (if n + 1 < length state_pointers
      then exchange_loop (n + 1)
             (if Score (state_pointers ! (n + 1)) <s Score (state_pointers ! n)
              then state_pointers[n := state_pointers ! (n + 1), n + 1 := state_pointers ! n]
              else state_pointers)
      else state_pointers)"
  by pat_completeness auto
termination
  by (relation "measure (\<lambda>(n, state_pointers). length state_pointers - n)") auto

definition exchange :: "State list \<Rightarrow> State list" where
  "exchange state_pointers = exchange_loop 0 state_pointers"

text \<open>
  The rank exchange as the specification words it, for comparison with the loop above:
  one pass over the adjacent pairs from the left; the pair is swapped when the left
  score is strictly greater; the state that ends up on the right then meets its next
  neighbour.
\<close>

fun spec_adjacent_pass :: "State list \<Rightarrow> State list" where
  "spec_adjacent_pass (x # y # zs) =
     (if Score y <s Score x then y # spec_adjacent_pass (x # zs) else x # spec_adjacent_pass (y # zs))"
| "spec_adjacent_pass xs = xs"

text \<open>
  The states the chains report in one round. The resume loop of \<^verbatim>\<open>hub\<close>
  (\<^verbatim>\<open>ResumeChan[n] <- state_pointers[n]\<close>) and, before the first round, \<^verbatim>\<open>main\<close>
  (\<^verbatim>\<open>ResumeChan[n] <- NewState()\<close>) hand chain \<open>n\<close> the state of slot \<open>n\<close>; the chain runs
  one iteration on it with the draws \<open>rnd n\<close>. A panic in any goroutine ends the program
  (\<open>None\<close>).
\<close>

definition reports_of :: "config \<Rightarrow> (nat \<Rightarrow> int32 \<times> real) \<Rightarrow> State list \<Rightarrow> State list option" where
  "reports_of cfg rnd sent = those (map (\<lambda>n. chain cfg n (rnd n) (sent ! n)) [0..<THREADS])"

text \<open>
  \<^verbatim>\<open>hub\<close> is \<^verbatim>\<open>for { collect; exchange; resume }\<close>, left only by the \<^verbatim>\<open>return\<close> of the
  collection loop. The loop need not end, so the model counts rounds down: \<open>rnd r n\<close> are
  the draws of chain \<open>n\<close> in round \<open>r\<close>, and \<open>Running\<close> holds the states the chains were
  last resumed with when the count is used up.
\<close>

datatype outcome = Finished nat State "State list" | Crashed | Running "State list"

fun hub :: "config \<Rightarrow> (nat \<Rightarrow> nat \<Rightarrow> int32 \<times> real) \<Rightarrow> nat \<Rightarrow> nat \<Rightarrow> State list \<Rightarrow> outcome" where
  "hub cfg rnd r 0 sent = Running sent"
| "hub cfg rnd r (Suc rounds) sent =
     (case reports_of cfg (rnd r) sent of
        None \<Rightarrow> Crashed
      | Some reports \<Rightarrow>
          (case collect 0 [] reports of
             Success n s rest \<Rightarrow> Finished n s rest
           | Reports state_pointers \<Rightarrow> hub cfg rnd (Suc r) rounds (exchange state_pointers)))"

text \<open>
  \<^verbatim>\<open>main\<close>: \<^verbatim>\<open>for n := 0; n < THREADS; n++ { go chain(n); ResumeChan[n] <- NewState() }\<close>,
  then \<^verbatim>\<open>hub()\<close>.
\<close>

definition main :: "config \<Rightarrow> (nat \<Rightarrow> nat \<Rightarrow> int32 \<times> real) \<Rightarrow> nat \<Rightarrow> outcome" where
  "main cfg rnd rounds = hub cfg rnd 0 rounds (replicate THREADS (NewState cfg))"

text \<open>The states an outcome holds, and the reports a collection left unreceived.\<close>

fun states_of :: "outcome \<Rightarrow> State list" where
  "states_of (Finished n s rest) = s # rest"
| "states_of Crashed = []"
| "states_of (Running sent) = sent"

fun unreceived :: "collected \<Rightarrow> State list" where
  "unreceived (Success n s rest) = rest"
| "unreceived (Reports state_pointers) = []"

text \<open>
  A state is consistent when its score is the one \<^verbatim>\<open>SetScore\<close> computes from its
  payload.
\<close>

definition score_of :: "config \<Rightarrow> int32 \<Rightarrow> int32" where
  "score_of cfg w = Score (SetScore cfg \<lparr>Score = 0, World = w\<rparr>)"

definition consistent :: "config \<Rightarrow> State \<Rightarrow> bool" where
  "consistent cfg s \<longleftrightarrow> Score s = score_of cfg (World s)"

section \<open>Facts about the loops\<close>

declare exchange_loop.simps [simp del]

lemma exchange_loop_length: "length (exchange_loop n sp) = length sp"
  by (induction n sp rule: exchange_loop.induct) (subst exchange_loop.simps, simp)

lemma spec_adjacent_pass_length: "length (spec_adjacent_pass xs) = length xs"
  by (induction xs rule: spec_adjacent_pass.induct) simp_all

lemma spec_adjacent_pass_short: "length xs \<le> 1 \<Longrightarrow> spec_adjacent_pass xs = xs"
  by (cases xs rule: spec_adjacent_pass.cases) simp_all

lemma exchange_loop_adjacent_pass:
  "exchange_loop n sp = take n sp @ spec_adjacent_pass (drop n sp)"
proof (induction n sp rule: exchange_loop.induct)
  case (1 n sp)
  show ?case
  proof (cases "n + 1 < length sp")
    case False
    then have "spec_adjacent_pass (drop n sp) = drop n sp"
      by (intro spec_adjacent_pass_short) simp
    with False show ?thesis
      by (subst exchange_loop.simps) simp
  next
    case True
    define x where "x = sp ! n"
    define y where "y = sp ! (n + 1)"
    define zs where "zs = drop (n + 2) sp"
    from True have split: "drop n sp = x # y # zs"
      by (simp add: x_def y_def zs_def Cons_nth_drop_Suc)
    show ?thesis
    proof (cases "Score y <s Score x")
      case swap: True
      let ?sp' = "sp[n := y, n + 1 := x]"
      have unroll: "exchange_loop n sp = exchange_loop (n + 1) ?sp'"
        using True swap by (subst exchange_loop.simps) (simp add: x_def y_def)
      from True have tk: "take (n + 1) ?sp' = take n sp @ [y]"
        by (simp add: take_Suc_conv_app_nth)
      from True have dr: "drop (n + 1) ?sp' = x # zs"
        by (simp add: zs_def flip: Cons_nth_drop_Suc)
      from "1.IH" [OF True] swap
      have "exchange_loop (n + 1) ?sp' = take (n + 1) ?sp' @ spec_adjacent_pass (drop (n + 1) ?sp')"
        by (simp add: x_def y_def)
      then show ?thesis
        by (simp only: unroll tk dr split) (simp add: swap)
    next
      case keep: False
      have unroll: "exchange_loop n sp = exchange_loop (n + 1) sp"
        using True keep by (subst exchange_loop.simps) (simp add: x_def y_def)
      from True have tk: "take (n + 1) sp = take n sp @ [x]"
        by (simp add: take_Suc_conv_app_nth x_def)
      from True have dr: "drop (n + 1) sp = y # zs"
        by (simp add: y_def zs_def Cons_nth_drop_Suc)
      from "1.IH" [OF True] keep
      have "exchange_loop (n + 1) sp = take (n + 1) sp @ spec_adjacent_pass (drop (n + 1) sp)"
        by (simp add: x_def y_def)
      then show ?thesis
        by (simp only: unroll tk dr split) (simp add: keep)
    qed
  qed
qed

lemma exchange_adjacent_pass: "exchange sp = spec_adjacent_pass sp"
  by (simp add: exchange_def exchange_loop_adjacent_pass)

lemma spec_adjacent_pass_mset: "mset (spec_adjacent_pass xs) = mset xs"
  by (induction xs rule: spec_adjacent_pass.induct) simp_all

lemma spec_adjacent_pass_sorted:
  "sorted_wrt (\<lambda>a b. Score a \<le>s Score b) xs \<Longrightarrow> spec_adjacent_pass xs = xs"
  by (induction xs rule: spec_adjacent_pass.induct) (auto simp: signed.not_less)

lemma spec_adjacent_pass_last:
  "s \<in> set xs \<Longrightarrow> Score s \<le>s Score (last (spec_adjacent_pass xs))"
proof (induction xs arbitrary: s rule: spec_adjacent_pass.induct)
  case (1 x y zs)
  have ne: "spec_adjacent_pass (v # zs) \<noteq> []" for v
    using spec_adjacent_pass_length [of "v # zs"] by (cases "spec_adjacent_pass (v # zs)") simp_all
  show ?case
  proof (cases "Score y <s Score x")
    case True
    have "Score x \<le>s Score (last (spec_adjacent_pass (x # zs)))"
      using "1.IH"(1) [OF True, of x] by simp
    with True have "Score y \<le>s Score (last (spec_adjacent_pass (x # zs)))"
      by (meson signed.less_imp_le signed.order_trans)
    with "1.IH"(1) [OF True] "1.prems" True ne show ?thesis
      by auto
  next
    case False
    have "Score y \<le>s Score (last (spec_adjacent_pass (y # zs)))"
      using "1.IH"(2) [OF False, of y] by simp
    with False have "Score x \<le>s Score (last (spec_adjacent_pass (y # zs)))"
      by (meson signed.not_less signed.order_trans)
    with "1.IH"(2) [OF False] "1.prems" False ne show ?thesis
      by auto
  qed
qed simp_all

lemma chain_total: "i < length (Heat cfg) \<Longrightarrow> \<exists>s'. chain cfg i rnd s = Some s'"
  by (simp add: chain_def Let_def)

lemma chain_cases:
  "chain cfg i rnd s = Some s' \<Longrightarrow> s' = s \<or> s' = SetScore cfg (Mutate cfg (fst rnd) s)"
  by (auto simp: chain_def Let_def split: if_splits)

lemma SetScore_World: "World (SetScore cfg s) = World s"
  by (simp add: SetScore_def Let_def)

lemma SetScore_Score: "Score (SetScore cfg s) = score_of cfg (World s)"
  by (simp add: SetScore_def score_of_def Let_def)

lemma SetScore_consistent: "consistent cfg (SetScore cfg s)"
  by (simp add: consistent_def SetScore_World SetScore_Score)

lemma chain_consistent:
  "consistent cfg s \<Longrightarrow> chain cfg i rnd s = Some s' \<Longrightarrow> consistent cfg s'"
  using chain_cases [of cfg i rnd s s'] by (auto simp: SetScore_consistent)

lemma those_Some:
  "those xs = Some ys \<Longrightarrow> length ys = length xs \<and> (\<forall>i<length xs. xs ! i = Some (ys ! i))"
proof (induction xs arbitrary: ys)
  case Nil
  then show ?case by simp
next
  case (Cons x xs)
  then obtain y ys' where x: "x = Some y" and t: "those xs = Some ys'" and ys: "ys = y # ys'"
    by (auto split: option.splits)
  from Cons.IH [OF t] show ?case
    by (auto simp: x ys nth_Cons split: nat.splits)
qed

lemma those_None: "those xs = None \<Longrightarrow> None \<in> set xs"
  by (induction xs) (auto split: option.splits)

lemma reports_of_Some:
  assumes "reports_of cfg rnd sent = Some reports"
  shows "length reports = THREADS"
    and "n < THREADS \<Longrightarrow> chain cfg n (rnd n) (sent ! n) = Some (reports ! n)"
  using those_Some [OF assms [unfolded reports_of_def]] by simp_all

lemma reports_of_never_None:
  "THREADS \<le> length (Heat cfg) \<Longrightarrow> reports_of cfg rnd sent \<noteq> None"
proof
  assume len: "THREADS \<le> length (Heat cfg)" and "reports_of cfg rnd sent = None"
  then have "None \<in> set (map (\<lambda>n. chain cfg n (rnd n) (sent ! n)) [0..<THREADS])"
    by (intro those_None) (simp add: reports_of_def)
  then obtain n where "n < THREADS" "chain cfg n (rnd n) (sent ! n) = None"
    by auto
  with len chain_total [of n cfg "rnd n" "sent ! n"] show False
    by simp
qed

lemma reports_of_consistent:
  assumes "reports_of cfg rnd sent = Some reports" "length sent = THREADS"
    and "\<forall>s\<in>set sent. consistent cfg s"
  shows "\<forall>s\<in>set reports. consistent cfg s"
proof
  fix s assume "s \<in> set reports"
  then obtain n where n: "n < length reports" "s = reports ! n"
    by (auto simp: in_set_conv_nth)
  with reports_of_Some [OF assms(1)] have "chain cfg n (rnd n) (sent ! n) = Some s"
    by simp
  moreover from n reports_of_Some(1) [OF assms(1)] assms(2,3) have "consistent cfg (sent ! n)"
    by simp
  ultimately show "consistent cfg s"
    by (rule chain_consistent [rotated])
qed

lemma collect_Reports: "collect n sp ws = Reports sp' \<Longrightarrow> sp' = sp @ ws"
  by (induction ws arbitrary: n sp) (fastforce split: if_splits)+

lemma collect_Success:
  "collect n sp ws = Success m s rest \<Longrightarrow> Score s = 0 \<and> s \<in> set ws \<and> set rest \<subseteq> set ws"
  by (induction ws arbitrary: n sp) (auto split: if_splits)

lemma collect_first_zero:
  "n < length ws \<Longrightarrow> Score (ws ! n) = 0 \<Longrightarrow> \<forall>m<n. Score (ws ! m) \<noteq> 0 \<Longrightarrow>
   collect k sp ws = Success (k + n) (ws ! n) (drop (Suc n) ws)"
proof (induction ws arbitrary: n k sp)
  case Nil
  then show ?case by simp
next
  case (Cons w ws)
  show ?case
  proof (cases n)
    case 0
    with Cons.prems show ?thesis by simp
  next
    case (Suc n')
    with Cons.prems have "Score w \<noteq> 0" by auto
    moreover from Suc Cons.prems
    have "collect (Suc k) (sp @ [w]) ws = Success (Suc k + n') (ws ! n') (drop (Suc n') ws)"
      by (intro Cons.IH) auto
    ultimately show ?thesis using Suc by simp
  qed
qed

lemma exchange_set: "set (exchange sp) = set sp"
  using spec_adjacent_pass_mset [of sp] by (metis exchange_adjacent_pass set_mset_mset)

lemma exchange_length: "length (exchange sp) = length sp"
  by (simp add: exchange_adjacent_pass spec_adjacent_pass_length)

lemma hub_consistent:
  "length sent = THREADS \<Longrightarrow> \<forall>s\<in>set sent. consistent cfg s \<Longrightarrow>
   \<forall>s\<in>set (states_of (hub cfg rnd r rounds sent)). consistent cfg s"
proof (induction rounds arbitrary: r sent)
  case 0
  then show ?case by simp
next
  case (Suc rounds)
  show ?case
  proof (cases "reports_of cfg (rnd r) sent")
    case None
    then show ?thesis by simp
  next
    case (Some reports)
    note rep = reports_of_consistent [OF Some Suc.prems]
    show ?thesis
    proof (cases "collect 0 [] reports")
      case (Success n s rest)
      with collect_Success [OF Success] rep Some show ?thesis
        by auto
    next
      case (Reports sp)
      with collect_Reports [OF Reports] have sp: "sp = reports" by simp
      have "\<forall>s\<in>set (states_of (hub cfg rnd (Suc r) rounds (exchange sp))). consistent cfg s"
        using rep reports_of_Some(1) [OF Some]
        by (intro Suc.IH) (simp_all add: sp exchange_set exchange_length)
      with Some Reports show ?thesis by simp
    qed
  qed
qed

lemma NewState_consistent: "consistent cfg (NewState cfg)"
  by (simp add: NewState_def SetScore_consistent)

section \<open>Facts about \<^verbatim>\<open>SetScore\<close>\<close>

text \<open>
  Away from the one difference that has no negation in 32 bits, the score is not
  negative; where the difference of target and payload fits 32 bits and is not the least
  value, the score is its absolute value; and the score is 0 exactly at the target.
\<close>

lemma sint_minus_int32:
  fixes d :: int32
  assumes "d \<noteq> - (2 ^ 31)"
  shows "sint (- d) = - sint d"
proof -
  have "sint d \<noteq> - (2 ^ 31)"
  proof
    assume "sint d = - (2 ^ 31)"
    then have "word_of_int (sint d) = (word_of_int (- (2 ^ 31)) :: int32)" by simp
    with assms show False by simp
  qed
  moreover have "- (2 ^ 31) \<le> sint d" "sint d < 2 ^ 31"
    using sint_ge [of d] sint_lt [of d] by simp_all
  ultimately have "signed_take_bit 31 (- sint d) = - sint d"
    by (intro signed_take_bit_int_eq_self) simp_all
  then show ?thesis
    by (simp add: sint_word_minus)
qed

lemma SetScore_Score_nonneg:
  assumes "target cfg - World s \<noteq> - (2 ^ 31)"
  shows "0 \<le> sint (Score (SetScore cfg s))"
  using sint_minus_int32 [OF assms]
  by (simp add: SetScore_def Let_def word_sless_alt)

lemma SetScore_Score_abs:
  assumes "- (2 ^ 31) < sint (target cfg) - sint (World s)"
    and "sint (target cfg) - sint (World s) < 2 ^ 31"
  shows "sint (Score (SetScore cfg s)) = \<bar>sint (target cfg) - sint (World s)\<bar>"
proof -
  let ?d = "target cfg - World s"
  from assms have d: "sint ?d = sint (target cfg) - sint (World s)"
    by (simp add: sint_word_diff signed_take_bit_int_eq_self)
  with assms have "?d \<noteq> - (2 ^ 31)"
    by auto
  from sint_minus_int32 [OF this] d show ?thesis
    by (simp add: SetScore_def Let_def word_sless_alt)
qed

lemma SetScore_Score_zero: "Score (SetScore cfg s) = 0 \<longleftrightarrow> World s = target cfg"
  by (auto simp: SetScore_def Let_def)

section \<open>A run that reaches the payload \<open>target - 2^31\<close>\<close>

text \<open>
  In 42949 rounds of \<^verbatim>\<open>metropolis.go\<close> the chain of slot 5 (heat 0.01) draws 0 from
  \<^verbatim>\<open>rand.Int31n\<close>, which moves its payload down by 50000, and 1/128 from
  \<^verbatim>\<open>rand.Float64()\<close>, which keeps the worse candidate; the other chains draw 0.5 and
  revert. In the next round the draw 16852 moves the payload of slot 5 to \<open>500 - 2^31\<close>.
  Its score is then \<open>- 2^31\<close>, below every other, and the exchange moves it towards
  slot 0.
\<close>

lemma sint_of_nat_int32:
  assumes "n < 2 ^ 31"
  shows "sint (of_nat n :: int32) = int n"
proof -
  from assms have "int n < 2 ^ 31" by (metis of_nat_less_iff of_nat_numeral of_nat_power)
  moreover have "- (2 ^ 31) \<le> int n"
    by (rule order_trans [of _ 0]) simp_all
  ultimately have "signed_take_bit 31 (int n) = int n"
    by (rule signed_take_bit_int_eq_self [rotated])
  then show ?thesis
    by (simp only: signed_of_nat len_of_numeral_defs) simp
qed

lemma walk_score:
  assumes "j \<le> 42949"
  shows "sint (500 + 50000 * of_nat j :: int32) = 500 + 50000 * int j"
proof -
  have "(500 + 50000 * of_nat j :: int32) = of_nat (500 + 50000 * j)" by simp
  moreover from assms have "500 + 50000 * j < 2 ^ 31" by simp
  ultimately have "sint (500 + 50000 * of_nat j :: int32) = int (500 + 50000 * j)"
    by (simp only: sint_of_nat_int32)
  then show ?thesis by simp
qed

lemma walk_step:
  assumes "j < 42949"
  shows "chain metropolis_go 5 (0, 1 / 128) \<lparr>Score = 500 + 50000 * of_nat j, World = - (50000 * of_nat j)\<rparr> =
    Some \<lparr>Score = 500 + 50000 * of_nat (Suc j), World = - (50000 * of_nat (Suc j))\<rparr>"
proof -
  from assms have a: "sint (500 + 50000 * of_nat j :: int32) = 500 + 50000 * int j"
    by (intro walk_score) simp
  from assms have b: "sint (500 + 50000 * of_nat (Suc j) :: int32) = 500 + 50000 * int (Suc j)"
    by (intro walk_score) simp
  have w: "- (50000 * of_nat j) + (0 - 50000) = (- (50000 * of_nat (Suc j)) :: int32)"
    by (simp add: algebra_simps)
  have d: "500 - - (50000 * of_nat (Suc j)) = (500 + 50000 * of_nat (Suc j) :: int32)"
    by simp
  have m: "Mutate metropolis_go 0 \<lparr>Score = 500 + 50000 * of_nat j, World = - (50000 * of_nat j)\<rparr> =
      \<lparr>Score = 500 + 50000 * of_nat j, World = - (50000 * of_nat (Suc j))\<rparr>"
    unfolding Mutate_def using w by (simp add: metropolis_go_def)
  have s: "SetScore metropolis_go \<lparr>Score = 500 + 50000 * of_nat j, World = - (50000 * of_nat (Suc j))\<rparr> =
      \<lparr>Score = 500 + 50000 * of_nat (Suc j), World = - (50000 * of_nat (Suc j))\<rparr>"
    unfolding SetScore_def Let_def using b d by (simp add: metropolis_go_def word_sless_alt)
  have c: "(500 + 50000 * of_nat j :: int32) <s 500 + 50000 * of_nat (Suc j)"
    unfolding word_sless_alt a b by simp
  show ?thesis
    unfolding chain_def Let_def fst_conv snd_conv m s using c
    by (simp add: metropolis_go_def)
qed

lemma those_map_Some: "\<forall>x\<in>set xs. f x = Some (g x) \<Longrightarrow> those (map f xs) = Some (map g xs)"
  by (induction xs) simp_all

lemma reports_of_eq:
  assumes "length ys = THREADS"
    and "\<And>n. n < THREADS \<Longrightarrow> chain cfg n (rnd n) (sent ! n) = Some (ys ! n)"
  shows "reports_of cfg rnd sent = Some ys"
proof -
  have "those (map (\<lambda>n. chain cfg n (rnd n) (sent ! n)) [0..<THREADS]) =
      Some (map (\<lambda>n. ys ! n) [0..<THREADS])"
    by (rule those_map_Some) (simp add: assms(2))
  with assms(1) show ?thesis
    by (simp add: reports_of_def map_nth [of ys, unfolded assms(1)])
qed

lemma collect_no_zero: "\<forall>s\<in>set ws. Score s \<noteq> 0 \<Longrightarrow> collect n sp ws = Reports (sp @ ws)"
  by (induction ws arbitrary: n sp) simp_all

lemma below_THREADS: "n < THREADS \<Longrightarrow> n < 5 \<or> n = 5"
  unfolding THREADS_def by arith

lemma walk_round:
  assumes "j < 42949"
  shows "hub metropolis_go (\<lambda>r n. (if r < 42949 then 0 else 16852, if n = 5 then 1 / 128 else 1 / 2))
      j (Suc m)
      [\<lparr>Score = 500, World = 0\<rparr>, \<lparr>Score = 500, World = 0\<rparr>, \<lparr>Score = 500, World = 0\<rparr>,
       \<lparr>Score = 500, World = 0\<rparr>, \<lparr>Score = 500, World = 0\<rparr>,
       \<lparr>Score = 500 + 50000 * of_nat j, World = - (50000 * of_nat j)\<rparr>] =
    hub metropolis_go (\<lambda>r n. (if r < 42949 then 0 else 16852, if n = 5 then 1 / 128 else 1 / 2))
      (Suc j) m
      [\<lparr>Score = 500, World = 0\<rparr>, \<lparr>Score = 500, World = 0\<rparr>, \<lparr>Score = 500, World = 0\<rparr>,
       \<lparr>Score = 500, World = 0\<rparr>, \<lparr>Score = 500, World = 0\<rparr>,
       \<lparr>Score = 500 + 50000 * of_nat (Suc j), World = - (50000 * of_nat (Suc j))\<rparr>]"
proof -
  let ?s0 = "\<lparr>Score = 500, World = 0\<rparr>"
  let ?next = "\<lparr>Score = 500 + 50000 * of_nat (Suc j), World = - (50000 * of_nat (Suc j))\<rparr>"
  let ?sent = "[?s0, ?s0, ?s0, ?s0, ?s0, \<lparr>Score = 500 + 50000 * of_nat j, World = - (50000 * of_nat j)\<rparr>]"
  let ?reports = "[?s0, ?s0, ?s0, ?s0, ?s0, ?next]"
  from assms have b: "sint (500 + 50000 * of_nat (Suc j) :: int32) = 500 + 50000 * int (Suc j)"
    by (intro walk_score) simp
  have cold: "chain metropolis_go n (0, 1 / 2) ?s0 = Some ?s0" if "n < 5" for n
    using that by (simp add: chain_def SetScore_def Mutate_def metropolis_go_def
        word_sless_alt Let_def nth_Cons split: nat.splits)
  have "reports_of metropolis_go (\<lambda>n. (0, if n = 5 then 1 / 128 else 1 / 2)) ?sent = Some ?reports"
  proof (rule reports_of_eq)
    show "length ?reports = THREADS" by (simp add: THREADS_def)
  next
    fix n assume "n < THREADS"
    then consider "n < 5" | "n = 5" using below_THREADS [of n] by auto
    then show "chain metropolis_go n (0, if n = 5 then 1 / 128 else 1 / 2) (?sent ! n) = Some (?reports ! n)"
    proof cases
      case 1
      with cold [OF 1] show ?thesis by (auto simp: nth_Cons split: nat.splits)
    next
      case 2
      with walk_step [OF assms] show ?thesis by simp
    qed
  qed
  moreover have "collect 0 [] ?reports = Reports ?reports"
  proof -
    have "Score ?next \<noteq> 0" using b by (auto simp del: of_nat_Suc)
    then show ?thesis by simp
  qed
  moreover have "exchange ?reports = ?reports"
    using b by (simp add: exchange_adjacent_pass word_sless_alt del: of_nat_Suc)
  ultimately show ?thesis
    using assms by simp
qed

lemma walk_last_round:
  "hub metropolis_go (\<lambda>r n. (if r < 42949 then 0 else 16852, if n = 5 then 1 / 128 else 1 / 2))
      42949 (Suc 0)
      [\<lparr>Score = 500, World = 0\<rparr>, \<lparr>Score = 500, World = 0\<rparr>, \<lparr>Score = 500, World = 0\<rparr>,
       \<lparr>Score = 500, World = 0\<rparr>, \<lparr>Score = 500, World = 0\<rparr>,
       \<lparr>Score = 500 + 50000 * of_nat 42949, World = - (50000 * of_nat 42949)\<rparr>] =
    Running
      [\<lparr>Score = 500, World = 0\<rparr>, \<lparr>Score = 500, World = 0\<rparr>, \<lparr>Score = 500, World = 0\<rparr>,
       \<lparr>Score = 500, World = 0\<rparr>, \<lparr>Score = - 2147483648, World = - 2147483148\<rparr>,
       \<lparr>Score = 500, World = 0\<rparr>]"
proof -
  let ?s0 = "\<lparr>Score = 500, World = 0\<rparr>"
  let ?bad = "\<lparr>Score = - 2147483648, World = - 2147483148\<rparr>"
  have "reports_of metropolis_go (\<lambda>n. (16852, if n = 5 then 1 / 128 else 1 / 2))
      [?s0, ?s0, ?s0, ?s0, ?s0, \<lparr>Score = 2147450500, World = - 2147450000\<rparr>] =
      Some [?s0, ?s0, ?s0, ?s0, ?s0, ?bad]"
    by (simp add: reports_of_def THREADS_def eval_nat_numeral chain_def
        SetScore_def Mutate_def metropolis_go_def word_sless_alt Let_def)
  moreover have "exchange [?s0, ?s0, ?s0, ?s0, ?s0, ?bad] = [?s0, ?s0, ?s0, ?s0, ?bad, ?s0]"
    by (simp add: exchange_adjacent_pass word_sless_alt)
  ultimately show ?thesis
    by simp
qed

lemma walk_rounds:
  "j + m = 42949 \<Longrightarrow>
   hub metropolis_go (\<lambda>r n. (if r < 42949 then 0 else 16852, if n = 5 then 1 / 128 else 1 / 2))
      j (Suc m)
      [\<lparr>Score = 500, World = 0\<rparr>, \<lparr>Score = 500, World = 0\<rparr>, \<lparr>Score = 500, World = 0\<rparr>,
       \<lparr>Score = 500, World = 0\<rparr>, \<lparr>Score = 500, World = 0\<rparr>,
       \<lparr>Score = 500 + 50000 * of_nat j, World = - (50000 * of_nat j)\<rparr>] =
    Running
      [\<lparr>Score = 500, World = 0\<rparr>, \<lparr>Score = 500, World = 0\<rparr>, \<lparr>Score = 500, World = 0\<rparr>,
       \<lparr>Score = 500, World = 0\<rparr>, \<lparr>Score = - 2147483648, World = - 2147483148\<rparr>,
       \<lparr>Score = 500, World = 0\<rparr>]"
proof (induction m arbitrary: j)
  case 0
  then have "j = 42949" by simp
  then show ?case by (simp only: walk_last_round)
next
  case (Suc m)
  then have "j < 42949" "Suc j + m = 42949" by simp_all
  then show ?case
    by (simp only: walk_round Suc.IH)
qed

lemma SetScore_negative_reached:
  "main metropolis_go (\<lambda>r n. (if r < 42949 then 0 else 16852, if n = 5 then 1 / 128 else 1 / 2)) 42950 =
    Running
      [\<lparr>Score = 500, World = 0\<rparr>, \<lparr>Score = 500, World = 0\<rparr>, \<lparr>Score = 500, World = 0\<rparr>,
       \<lparr>Score = 500, World = 0\<rparr>, \<lparr>Score = - 2147483648, World = - 2147483148\<rparr>,
       \<lparr>Score = 500, World = 0\<rparr>]"
proof -
  have n: "replicate THREADS (NewState metropolis_go) =
      [\<lparr>Score = 500, World = 0\<rparr>, \<lparr>Score = 500, World = 0\<rparr>, \<lparr>Score = 500, World = 0\<rparr>,
       \<lparr>Score = 500, World = 0\<rparr>, \<lparr>Score = 500, World = 0\<rparr>,
       \<lparr>Score = 500 + 50000 * of_nat 0, World = - (50000 * of_nat 0)\<rparr>]"
    by (simp add: THREADS_def eval_nat_numeral NewState_def SetScore_def metropolis_go_def
        word_sless_alt Let_def)
  have s: "(42950 :: nat) = Suc 42949" by simp
  show ?thesis
    unfolding main_def n s by (rule walk_rounds) simp
qed

section \<open>The claims\<close>

text \<open>
  C3. \<^verbatim>\<open>SetScore\<close> is meant to give the distance to the target, never negative, 0 being
  the best score. For the payload \<open>target - 2^31\<close> it does not: the difference wraps to the
  least \<^verbatim>\<open>int32\<close>, whose negation is itself, and the score is \<open>- 2^31\<close>. The
  evaluation below is for both revisions (targets 500 and 50000).
\<close>

theorem SetScore_negative_at_minimum:
  "sint (Score (SetScore metropolis_go \<lparr>Score = 0, World = - 2147483148\<rparr>)) = - 2147483648 \<and>
   sint (Score (SetScore part_000 \<lparr>Score = 0, World = - 2147433648\<rparr>)) = - 2147483648"
  by (simp add: SetScore_def metropolis_go_def part_000_def word_sless_alt)

text \<open>
  C4. The exchange loop of the hub is one pass over the adjacent pairs from the left
  (slot \<open>i\<close> against slot \<open>i + 1\<close>, for \<open>i\<close> from 0 to \<open>N - 2\<close>), swapping the two
  states exactly when the left score is strictly greater. Scores 5, 3, 8 become 3, 5, 8,
  and scores 8, 5, 3 become 5, 3, 8, which is not sorted.
\<close>

theorem exchange_single_pass:
  "exchange sp = spec_adjacent_pass sp \<and>
   exchange [\<lparr>Score = 5, World = a\<rparr>, \<lparr>Score = 3, World = b\<rparr>, \<lparr>Score = 8, World = c\<rparr>] =
     [\<lparr>Score = 3, World = b\<rparr>, \<lparr>Score = 5, World = a\<rparr>, \<lparr>Score = 8, World = c\<rparr>] \<and>
   exchange [\<lparr>Score = 8, World = a\<rparr>, \<lparr>Score = 5, World = b\<rparr>, \<lparr>Score = 3, World = c\<rparr>] =
     [\<lparr>Score = 5, World = b\<rparr>, \<lparr>Score = 3, World = c\<rparr>, \<lparr>Score = 8, World = a\<rparr>] \<and>
   \<not> sorted_wrt (\<lambda>x y. Score x \<le>s Score y)
     (exchange [\<lparr>Score = 8, World = a\<rparr>, \<lparr>Score = 5, World = b\<rparr>, \<lparr>Score = 3, World = c\<rparr>])"
  by (simp add: exchange_adjacent_pass word_sless_alt word_sle_eq)

theorem exchange_single_pass_witness:
  "exchange [\<lparr>Score = 8, World = 0\<rparr>, \<lparr>Score = 5, World = 1\<rparr>, \<lparr>Score = 3, World = 2\<rparr>] =
     spec_adjacent_pass [\<lparr>Score = 8, World = 0\<rparr>, \<lparr>Score = 5, World = 1\<rparr>, \<lparr>Score = 3, World = 2\<rparr>] \<and>
   exchange [\<lparr>Score = 8, World = 0\<rparr>, \<lparr>Score = 5, World = 1\<rparr>, \<lparr>Score = 3, World = 2\<rparr>] =
     [\<lparr>Score = 5, World = 1\<rparr>, \<lparr>Score = 3, World = 2\<rparr>, \<lparr>Score = 8, World = 0\<rparr>]"
  using exchange_single_pass [of "[\<lparr>Score = 8, World = 0\<rparr>, \<lparr>Score = 5, World = 1\<rparr>, \<lparr>Score = 3, World = 2\<rparr>]" 0 1 2]
  by simp

text \<open>
  C5. One exchange pass permutes the array: the multiset of the states (payload and
  score) after the pass is the multiset before it.
\<close>

theorem exchange_permutes: "mset (exchange sp) = mset sp"
  by (simp add: exchange_adjacent_pass spec_adjacent_pass_mset)

theorem exchange_permutes_witness:
  "mset (exchange [\<lparr>Score = 8, World = 0\<rparr>, \<lparr>Score = 5, World = 1\<rparr>, \<lparr>Score = 5, World = 1\<rparr>]) =
   mset [\<lparr>Score = 8, World = 0\<rparr>, \<lparr>Score = 5, World = 1\<rparr>, \<lparr>Score = 5, World = 1\<rparr>]"
  using exchange_permutes [of "[\<lparr>Score = 8, World = 0\<rparr>, \<lparr>Score = 5, World = 1\<rparr>, \<lparr>Score = 5, World = 1\<rparr>]"]
  by simp

text \<open>
  C6. An array whose scores are in non-decreasing order, equal scores included, is left
  unchanged by one exchange pass.
\<close>

theorem exchange_sorted_unchanged:
  "sorted_wrt (\<lambda>a b. Score a \<le>s Score b) sp \<Longrightarrow> exchange sp = sp"
  by (simp add: exchange_adjacent_pass spec_adjacent_pass_sorted)

theorem exchange_sorted_unchanged_witness:
  "sorted_wrt (\<lambda>a b. Score a \<le>s Score b)
     [\<lparr>Score = - 4, World = 504\<rparr>, \<lparr>Score = 3, World = 497\<rparr>, \<lparr>Score = 3, World = 503\<rparr>, \<lparr>Score = 8, World = 492\<rparr>] \<and>
   exchange [\<lparr>Score = - 4, World = 504\<rparr>, \<lparr>Score = 3, World = 497\<rparr>, \<lparr>Score = 3, World = 503\<rparr>, \<lparr>Score = 8, World = 492\<rparr>] =
     [\<lparr>Score = - 4, World = 504\<rparr>, \<lparr>Score = 3, World = 497\<rparr>, \<lparr>Score = 3, World = 503\<rparr>, \<lparr>Score = 8, World = 492\<rparr>]"
proof -
  have h: "sorted_wrt (\<lambda>a b. Score a \<le>s Score b)
     [\<lparr>Score = - 4, World = 504\<rparr>, \<lparr>Score = 3, World = 497\<rparr>, \<lparr>Score = 3, World = 503\<rparr>, \<lparr>Score = 8, World = 492\<rparr>]"
    by (simp add: word_sle_eq)
  from h exchange_sorted_unchanged [OF h] show ?thesis by simp
qed

text \<open>
  C10. After one exchange pass the last slot, \<open>N - 1\<close>, holds one of the states of the
  array, and its score is at least as great as that of every state of the array.
\<close>

theorem exchange_last_is_worst:
  assumes "s \<in> set sp"
  shows "exchange sp ! (length sp - 1) \<in> set sp \<and>
         Score s \<le>s Score (exchange sp ! (length sp - 1))"
proof -
  from assms have ne: "exchange sp \<noteq> []"
    using exchange_length [of sp] by (cases sp) auto
  then have slot: "exchange sp ! (length sp - 1) = last (exchange sp)"
    by (simp add: last_conv_nth exchange_length)
  from ne have "last (exchange sp) \<in> set (exchange sp)"
    by (rule last_in_set)
  then have "exchange sp ! (length sp - 1) \<in> set sp"
    by (simp only: slot exchange_set)
  moreover have "Score s \<le>s Score (last (exchange sp))"
    using spec_adjacent_pass_last [OF assms] by (simp only: exchange_adjacent_pass)
  then have "Score s \<le>s Score (exchange sp ! (length sp - 1))"
    by (simp only: slot)
  ultimately show ?thesis ..
qed

theorem exchange_last_is_worst_witness:
  "\<lparr>Score = 5, World = 1\<rparr> \<in> set [\<lparr>Score = 8, World = 0\<rparr>, \<lparr>Score = 5, World = 1\<rparr>, \<lparr>Score = 3, World = 2\<rparr>] \<and>
   exchange [\<lparr>Score = 8, World = 0\<rparr>, \<lparr>Score = 5, World = 1\<rparr>, \<lparr>Score = 3, World = 2\<rparr>] ! (3 - 1) =
     \<lparr>Score = 8, World = 0\<rparr> \<and>
   exchange [\<lparr>Score = 8, World = 0\<rparr>, \<lparr>Score = 5, World = 1\<rparr>, \<lparr>Score = 3, World = 2\<rparr>] ! (3 - 1)
     \<in> set [\<lparr>Score = 8, World = 0\<rparr>, \<lparr>Score = 5, World = 1\<rparr>, \<lparr>Score = 3, World = 2\<rparr>] \<and>
   (5 :: int32) \<le>s Score (exchange [\<lparr>Score = 8, World = 0\<rparr>, \<lparr>Score = 5, World = 1\<rparr>, \<lparr>Score = 3, World = 2\<rparr>] ! (3 - 1))"
proof -
  let ?sp = "[\<lparr>Score = 8, World = 0\<rparr>, \<lparr>Score = 5, World = 1\<rparr>, \<lparr>Score = 3, World = 2\<rparr>]"
  have h: "\<lparr>Score = 5, World = 1\<rparr> \<in> set ?sp" by simp
  have e: "exchange ?sp ! (3 - 1) = \<lparr>Score = 8, World = 0\<rparr>"
    by (simp add: exchange_adjacent_pass word_sless_alt numeral_2_eq_2)
  from h e exchange_last_is_worst [OF h] show ?thesis
    by simp
qed

text \<open>
  C1, as amended. When a report of the round has score 0 and no report of a lower slot
  has, the hub returns that chain's state at once, whatever number of rounds it could
  still have run; the reports of the chains of the higher slots are not received.
\<close>

theorem hub_returns_at_first_success:
  assumes "reports_of cfg (draws r) sent = Some reports"
    and "n < length reports" and "Score (reports ! n) = 0"
    and "\<forall>m<n. Score (reports ! m) \<noteq> 0"
  shows "unreceived (collect 0 [] reports) = drop (Suc n) reports \<and>
         hub cfg draws r (Suc rounds) sent = Finished n (reports ! n) (drop (Suc n) reports)"
  using assms(1) collect_first_zero [OF assms(2-4), of 0 "[]"] by simp

theorem hub_returns_at_first_success_witness:
  "reports_of part_000 (\<lambda>n. if n = 1 then (99, 1 / 2) else (60, 1 / 2))
     (replicate THREADS \<lparr>Score = 49, World = 49951\<rparr>) =
     Some [\<lparr>Score = 39, World = 49961\<rparr>, \<lparr>Score = 0, World = 50000\<rparr>, \<lparr>Score = 39, World = 49961\<rparr>,
       \<lparr>Score = 39, World = 49961\<rparr>, \<lparr>Score = 39, World = 49961\<rparr>, \<lparr>Score = 39, World = 49961\<rparr>] \<and>
   hub part_000 (\<lambda>r n. if n = 1 then (99, 1 / 2) else (60, 1 / 2)) 7 (Suc 3)
     (replicate THREADS \<lparr>Score = 49, World = 49951\<rparr>) =
     Finished 1 \<lparr>Score = 0, World = 50000\<rparr>
       [\<lparr>Score = 39, World = 49961\<rparr>, \<lparr>Score = 39, World = 49961\<rparr>,
        \<lparr>Score = 39, World = 49961\<rparr>, \<lparr>Score = 39, World = 49961\<rparr>]"
proof -
  let ?reports = "[\<lparr>Score = 39, World = 49961\<rparr>, \<lparr>Score = 0, World = 50000\<rparr>, \<lparr>Score = 39, World = 49961\<rparr>,
       \<lparr>Score = 39, World = 49961\<rparr>, \<lparr>Score = 39, World = 49961\<rparr>, \<lparr>Score = 39, World = 49961\<rparr>]"
  have h1: "reports_of part_000 ((\<lambda>r n. if n = 1 then (99, 1 / 2) else (60, 1 / 2)) 7)
     (replicate THREADS \<lparr>Score = 49, World = 49951\<rparr>) = Some ?reports"
    by (simp add: reports_of_def THREADS_def eval_nat_numeral chain_def
        SetScore_def Mutate_def part_000_def word_sless_alt Let_def)
  have h2: "1 < length ?reports" by simp
  have h3: "Score (?reports ! 1) = 0" by simp
  have h4: "\<forall>m<1. Score (?reports ! m) \<noteq> 0" by simp
  from h1 h2 h3 h4 hub_returns_at_first_success
    [of part_000 "\<lambda>r n. if n = 1 then (99, 1 / 2) else (60, 1 / 2)" 7
      "replicate THREADS \<lparr>Score = 49, World = 49951\<rparr>" ?reports 1 3]
  show ?thesis
    by simp
qed

text \<open>
  C1 as stated fails: in this first round of \<^verbatim>\<open>metropolis.go\<close> the chain of slot 0
  reports score 0, the hub returns, and the five other reports are never received.
\<close>

theorem hub_success_leaves_reports_counterexample:
  "reports_of metropolis_go (\<lambda>n. if n = 0 then (50500, 1 / 2) else (50010, 1 / 2))
     (replicate THREADS (NewState metropolis_go)) =
     Some [\<lparr>Score = 0, World = 500\<rparr>, \<lparr>Score = 490, World = 10\<rparr>, \<lparr>Score = 490, World = 10\<rparr>,
       \<lparr>Score = 490, World = 10\<rparr>, \<lparr>Score = 490, World = 10\<rparr>, \<lparr>Score = 490, World = 10\<rparr>] \<and>
   unreceived (collect 0 []
     [\<lparr>Score = 0, World = 500\<rparr>, \<lparr>Score = 490, World = 10\<rparr>, \<lparr>Score = 490, World = 10\<rparr>,
       \<lparr>Score = 490, World = 10\<rparr>, \<lparr>Score = 490, World = 10\<rparr>, \<lparr>Score = 490, World = 10\<rparr>]) =
     [\<lparr>Score = 490, World = 10\<rparr>, \<lparr>Score = 490, World = 10\<rparr>,
       \<lparr>Score = 490, World = 10\<rparr>, \<lparr>Score = 490, World = 10\<rparr>, \<lparr>Score = 490, World = 10\<rparr>] \<and>
   main metropolis_go (\<lambda>r n. if n = 0 then (50500, 1 / 2) else (50010, 1 / 2)) 1 =
     Finished 0 \<lparr>Score = 0, World = 500\<rparr>
       [\<lparr>Score = 490, World = 10\<rparr>, \<lparr>Score = 490, World = 10\<rparr>,
        \<lparr>Score = 490, World = 10\<rparr>, \<lparr>Score = 490, World = 10\<rparr>, \<lparr>Score = 490, World = 10\<rparr>]"
proof -
  have "reports_of metropolis_go (\<lambda>n. if n = 0 then (50500, 1 / 2) else (50010, 1 / 2))
     (replicate THREADS (NewState metropolis_go)) =
     Some [\<lparr>Score = 0, World = 500\<rparr>, \<lparr>Score = 490, World = 10\<rparr>, \<lparr>Score = 490, World = 10\<rparr>,
       \<lparr>Score = 490, World = 10\<rparr>, \<lparr>Score = 490, World = 10\<rparr>, \<lparr>Score = 490, World = 10\<rparr>]"
    by (simp add: reports_of_def THREADS_def eval_nat_numeral chain_def NewState_def
        SetScore_def Mutate_def metropolis_go_def word_sless_alt Let_def)
  then show ?thesis
    by (simp add: main_def)
qed

text \<open>
  C2, as amended. A chain whose heat is 0 never reports a score greater than the score
  it received, for every draw of \<^verbatim>\<open>rand.Float64()\<close> that is greater than 0; the test
  of the source is \<^verbatim>\<open>rand.Float64() > Heat[index]\<close>.
\<close>

theorem chain_cold_never_worse:
  assumes "i < length (Heat cfg)" and "Heat cfg ! i = 0" and "0 < roll"
  shows "\<exists>s'. chain cfg i (k, roll) s = Some s' \<and> Score s' \<le>s Score s"
  using assms by (simp add: chain_def Let_def signed.not_less)

theorem chain_cold_never_worse_witness:
  "0 < length (Heat metropolis_go) \<and> Heat metropolis_go ! 0 = 0 \<and> (0 :: real) < 1 / 2 \<and>
   (\<exists>s'. chain metropolis_go 0 (49990, 1 / 2) (NewState metropolis_go) = Some s' \<and>
      Score s' \<le>s Score (NewState metropolis_go)) \<and>
   chain metropolis_go 0 (49990, 1 / 2) (NewState metropolis_go) = Some (NewState metropolis_go)"
proof -
  have h: "0 < length (Heat metropolis_go)" "Heat metropolis_go ! 0 = 0" "(0 :: real) < 1 / 2"
    by (simp_all add: metropolis_go_def)
  have "chain metropolis_go 0 (49990, 1 / 2) (NewState metropolis_go) = Some (NewState metropolis_go)"
    by (simp add: chain_def NewState_def SetScore_def Mutate_def metropolis_go_def
        word_sless_alt Let_def)
  with h chain_cold_never_worse [OF h, of 49990 "NewState metropolis_go"] show ?thesis
    by simp
qed

text \<open>
  C2 as stated fails for the draw 0: \<open>0 > Heat[0]\<close> is false, the chain of slot 0 keeps
  the worse candidate and reports score 510 for the score 500 it received.
\<close>

theorem chain_cold_counterexample:
  "Heat metropolis_go ! 0 = 0 \<and>
   (49990 :: int32) < spread metropolis_go \<and>
   Score (NewState metropolis_go) = 500 \<and>
   chain metropolis_go 0 (49990, 0) (NewState metropolis_go) = Some \<lparr>Score = 510, World = - 10\<rparr> \<and>
   \<not> (510 :: int32) \<le>s 500"
  by (simp add: chain_def NewState_def SetScore_def Mutate_def metropolis_go_def
      word_sless_alt word_sle_eq Let_def)
text \<open>
  C7. A chain whose heat is 1 reports the mutated and rescored candidate, whatever its
  score, for every draw of \<^verbatim>\<open>rand.Float64()\<close> (a number below 1).
\<close>

theorem chain_hot_always_accepts:
  assumes "i < length (Heat cfg)" and "Heat cfg ! i = 1" and "roll < 1"
  shows "chain cfg i (k, roll) s = Some (SetScore cfg (Mutate cfg k s))"
  using assms by (simp add: chain_def Let_def)

theorem chain_hot_always_accepts_witness:
  "2 < length (Heat \<lparr>target = 50000, spread = 100, shift = 50, Heat = [0, 0.5, 1]\<rparr>) \<and>
   Heat \<lparr>target = 50000, spread = 100, shift = 50, Heat = [0, 0.5, 1]\<rparr> ! 2 = 1 \<and>
   (7 / 8 :: real) < 1 \<and>
   chain \<lparr>target = 50000, spread = 100, shift = 50, Heat = [0, 0.5, 1]\<rparr> 2 (40, 7 / 8)
     \<lparr>Score = 50000, World = 0\<rparr> = Some \<lparr>Score = 50010, World = - 10\<rparr>"
proof -
  let ?cfg = "\<lparr>target = 50000, spread = 100, shift = 50, Heat = [0, 0.5, 1]\<rparr>"
  have h: "2 < length (Heat ?cfg)" "Heat ?cfg ! 2 = 1" "(7 / 8 :: real) < 1"
    by simp_all
  have "SetScore ?cfg (Mutate ?cfg 40 \<lparr>Score = 50000, World = 0\<rparr>) = \<lparr>Score = 50010, World = - 10\<rparr>"
    by (simp add: SetScore_def Mutate_def word_sless_alt Let_def)
  with h chain_hot_always_accepts [OF h, of 40 "\<lparr>Score = 50000, World = 0\<rparr>"] show ?thesis
    by simp
qed

text \<open>
  C8. When the candidate's score is strictly greater than the incoming score and the
  draw is greater than the chain's heat, the chain reports the state it received, payload
  and score; and what a chain reports is always either the mutated and rescored
  candidate or the state it received.
\<close>

theorem chain_reverts_exactly:
  assumes "i < length (Heat cfg)"
  shows "(Score s <s Score (SetScore cfg (Mutate cfg k s)) \<and> Heat cfg ! i < roll \<longrightarrow>
            chain cfg i (k, roll) s = Some s) \<and>
         (chain cfg i (k, roll) s = Some (SetScore cfg (Mutate cfg k s)) \<or>
          chain cfg i (k, roll) s = Some s)"
  using assms by (simp add: chain_def Let_def)

theorem chain_reverts_exactly_witness:
  "5 < length (Heat part_000) \<and>
   Score (NewState part_000) <s Score (SetScore part_000 (Mutate part_000 3 (NewState part_000))) \<and>
   Heat part_000 ! 5 < 3 / 4 \<and>
   chain part_000 5 (3, 3 / 4) (NewState part_000) = Some (NewState part_000) \<and>
   NewState part_000 = \<lparr>Score = 50000, World = 0\<rparr>"
proof -
  have h: "5 < length (Heat part_000)" by (simp add: part_000_def)
  have w: "Score (NewState part_000) <s Score (SetScore part_000 (Mutate part_000 3 (NewState part_000)))"
    "Heat part_000 ! 5 < 3 / 4" "NewState part_000 = \<lparr>Score = 50000, World = 0\<rparr>"
    by (simp_all add: NewState_def SetScore_def Mutate_def part_000_def word_sless_alt Let_def)
  from h w chain_reverts_exactly [OF h, of "NewState part_000" 3 "3 / 4"] show ?thesis
    by simp
qed

text \<open>
  C9. The score of a state is the score of its payload after each operation that
  produces states: \<^verbatim>\<open>NewState\<close>; an iteration of a chain, on a state for which it held;
  the exchange, on an array for whose states it held; and so for every state that
  \<^verbatim>\<open>main\<close> and the hub hold or print after any number of rounds, whatever the draws.
\<close>

theorem score_never_stale:
  "consistent cfg (NewState cfg) \<and>
   (consistent cfg s \<longrightarrow> chain cfg i rnd s = Some s' \<longrightarrow> consistent cfg s') \<and>
   ((\<forall>s\<in>set sp. consistent cfg s) \<longrightarrow> (\<forall>s\<in>set (exchange sp). consistent cfg s)) \<and>
   (\<forall>s\<in>set (states_of (main cfg draws rounds)). consistent cfg s)"
proof -
  have "\<forall>s\<in>set (states_of (main cfg draws rounds)). consistent cfg s"
    unfolding main_def by (rule hub_consistent) (simp_all add: NewState_consistent)
  then show ?thesis
    by (auto simp: NewState_consistent exchange_set dest: chain_consistent)
qed

theorem score_never_stale_witness:
  "consistent metropolis_go (NewState metropolis_go) \<and>
   chain metropolis_go 3 (49990, 1 / 2) (NewState metropolis_go) = Some \<lparr>Score = 500, World = 0\<rparr> \<and>
   consistent metropolis_go \<lparr>Score = 500, World = 0\<rparr> \<and>
   consistent metropolis_go \<lparr>Score = 510, World = - 10\<rparr> \<and>
   exchange [\<lparr>Score = 510, World = - 10\<rparr>, \<lparr>Score = 500, World = 0\<rparr>] =
     [\<lparr>Score = 500, World = 0\<rparr>, \<lparr>Score = 510, World = - 10\<rparr>] \<and>
   states_of (main metropolis_go (\<lambda>r n. (50010, 1 / 2)) 1) =
     [\<lparr>Score = 490, World = 10\<rparr>, \<lparr>Score = 490, World = 10\<rparr>, \<lparr>Score = 490, World = 10\<rparr>,
      \<lparr>Score = 490, World = 10\<rparr>, \<lparr>Score = 490, World = 10\<rparr>, \<lparr>Score = 490, World = 10\<rparr>] \<and>
   consistent metropolis_go \<lparr>Score = 490, World = 10\<rparr>"
proof -
  let ?sp = "[\<lparr>Score = 510, World = - 10\<rparr>, \<lparr>Score = 500, World = 0\<rparr>]"
  have c: "chain metropolis_go 3 (49990, 1 / 2) (NewState metropolis_go) = Some \<lparr>Score = 500, World = 0\<rparr>"
    by (simp add: chain_def NewState_def SetScore_def Mutate_def metropolis_go_def
        word_sless_alt Let_def)
  have n: "NewState metropolis_go = \<lparr>Score = 500, World = 0\<rparr>"
    by (simp add: NewState_def SetScore_def metropolis_go_def word_sless_alt Let_def)
  have sp: "\<forall>s\<in>set ?sp. consistent metropolis_go s"
    by (simp add: consistent_def score_of_def SetScore_def metropolis_go_def word_sless_alt Let_def)
  have e: "exchange ?sp = [\<lparr>Score = 500, World = 0\<rparr>, \<lparr>Score = 510, World = - 10\<rparr>]"
    by (simp add: exchange_adjacent_pass word_sless_alt)
  have r: "reports_of metropolis_go (\<lambda>n. (50010, 1 / 2)) (replicate THREADS (NewState metropolis_go)) =
     Some [\<lparr>Score = 490, World = 10\<rparr>, \<lparr>Score = 490, World = 10\<rparr>, \<lparr>Score = 490, World = 10\<rparr>,
      \<lparr>Score = 490, World = 10\<rparr>, \<lparr>Score = 490, World = 10\<rparr>, \<lparr>Score = 490, World = 10\<rparr>]"
    by (simp add: reports_of_def THREADS_def eval_nat_numeral chain_def NewState_def
        SetScore_def Mutate_def metropolis_go_def word_sless_alt Let_def)
  have m: "states_of (main metropolis_go (\<lambda>r n. (50010, 1 / 2)) 1) =
     [\<lparr>Score = 490, World = 10\<rparr>, \<lparr>Score = 490, World = 10\<rparr>, \<lparr>Score = 490, World = 10\<rparr>,
      \<lparr>Score = 490, World = 10\<rparr>, \<lparr>Score = 490, World = 10\<rparr>, \<lparr>Score = 490, World = 10\<rparr>]"
    by (simp add: main_def r exchange_adjacent_pass)
  from score_never_stale [of metropolis_go "NewState metropolis_go" 3 "(49990, 1 / 2)"
      "\<lparr>Score = 500, World = 0\<rparr>" ?sp "\<lambda>r n. (50010, 1 / 2)" 1] c n sp e m
  show ?thesis by simp
qed

end
